theory Spec2Isabelle
  imports Main
begin

section \<open>JavaScript string helpers used by the registration code\<close>

text \<open>
  Strings are lists of 8-bit characters. \<open>truthy\<close> is JavaScript's truthiness of an
  optional string: \<open>undefined\<close>, \<open>null\<close> and the empty string are falsy.
\<close>

definition truthy :: "string option \<Rightarrow> bool" where
  "truthy s = (case s of None \<Rightarrow> False | Some t \<Rightarrow> t \<noteq> [])"

text \<open>\<open>Number.prototype.toString\<close> on a non-negative integer: its decimal digits.\<close>

definition digit_char :: "nat \<Rightarrow> char" where
  "digit_char d = ''0123456789'' ! (d mod 10)"

fun toString :: "nat \<Rightarrow> string" where
  "toString n = (if n < 10 then [digit_char n] else toString (n div 10) @ [digit_char n])"

declare toString.simps [simp del]

text \<open>\<open>String.prototype.padStart\<close> with a one-character filler.\<close>

definition padStart :: "nat \<Rightarrow> char \<Rightarrow> string \<Rightarrow> string" where
  "padStart n c s = replicate (n - length s) c @ s"

definition is_digit :: "char \<Rightarrow> bool" where
  "is_digit c = (c \<in> set ''0123456789'')"

section \<open>The address grammar \<open>EMAIL_REGEX\<close>\<close>

text \<open>
  Modelled from the spec: \<open>EMAIL_REGEX\<close> is imported by \<open>register.ts\<close> from
  \<open>../../util/instanceOf\<close>, which is not among the sources. The spec only says that the
  address is parsed into local part and domain and that an input outside the address
  grammar is rejected; \<open>adjustEmail\<close> reads group 1 as the local part and group 5 as
  the domain. The grammar below is the one with that group numbering:
  \<^verbatim>\<open>^(([^<>()[\]\\.,;:\s@"]+(\.[^<>()[\]\\.,;:\s@"]+)*)|(".+"))@((\[[0-9]{1,3}\.[0-9]{1,3}\.[0-9]{1,3}\.[0-9]{1,3}\])|(([a-zA-Z\-0-9]+\.)+[a-zA-Z]{2,}))$\<close>
  The domain alternatives contain no \<open>@\<close>, so the separator is the last \<open>@\<close> of the
  input; the match returns the pair (group 1, group 5).
\<close>

definition at_sign :: char where
  "at_sign = CHR ''@''"

definition dquote :: char where
  "dquote = CHR 0x22"

definition line_terminator :: "char \<Rightarrow> bool" where
  "line_terminator c = (c = CHR 0x0A \<or> c = CHR 0x0D)"

definition js_space :: "char \<Rightarrow> bool" where
  "js_space c = (c \<in> set [CHR 0x09, CHR 0x0A, CHR 0x0B, CHR 0x0C, CHR 0x0D, CHR 0x20, CHR 0xA0])"

definition atom_char :: "char \<Rightarrow> bool" where
  "atom_char c = (c \<notin> set [CHR ''<'', CHR ''>'', CHR ''('', CHR '')'', CHR ''['', CHR '']'',
                              CHR 0x5C, CHR ''.'', CHR '','', CHR '';'', CHR '':'', at_sign, dquote]
                  \<and> \<not> js_space c)"

text \<open>
  \<open>[^...]+(\.[^...]+)*\<close>: the flag records whether the current dot-separated segment
  already holds a character.
\<close>

fun dot_atom_from :: "bool \<Rightarrow> string \<Rightarrow> bool" where
  "dot_atom_from b [] = b"
| "dot_atom_from b (c # cs) =
     (if atom_char c then dot_atom_from True cs
      else if c = CHR ''.'' \<and> b then dot_atom_from False cs
      else False)"

definition dot_atom :: "string \<Rightarrow> bool" where
  "dot_atom s = dot_atom_from False s"

text \<open>\<open>".+"\<close>: a quote, at least one character that is no line terminator, a quote.\<close>

definition quoted_local :: "string \<Rightarrow> bool" where
  "quoted_local s =
     (3 \<le> length s \<and> hd s = dquote \<and> last s = dquote
      \<and> (\<forall>c \<in> set (butlast (tl s)). \<not> line_terminator c))"

definition local_part_ok :: "string \<Rightarrow> bool" where
  "local_part_ok s = (dot_atom s \<or> quoted_local s)"

fun split_on :: "char \<Rightarrow> string \<Rightarrow> string list" where
  "split_on d [] = [[]]"
| "split_on d (c # cs) =
     (if c = d then [] # split_on d cs
      else (case split_on d cs of [] \<Rightarrow> [[c]] | p # ps \<Rightarrow> (c # p) # ps))"

definition is_alpha :: "char \<Rightarrow> bool" where
  "is_alpha c = (c \<in> set ''abcdefghijklmnopqrstuvwxyzABCDEFGHIJKLMNOPQRSTUVWXYZ'')"

definition label_char :: "char \<Rightarrow> bool" where
  "label_char c = (is_alpha c \<or> is_digit c \<or> c = CHR ''-'')"

text \<open>\<open>([a-zA-Z\-0-9]+\.)+[a-zA-Z]{2,}\<close>\<close>

definition domain_name :: "string \<Rightarrow> bool" where
  "domain_name s =
     (let ps = split_on (CHR ''.'') s in
      2 \<le> length ps
      \<and> (\<forall>p \<in> set (butlast ps). p \<noteq> [] \<and> (\<forall>c \<in> set p. label_char c))
      \<and> 2 \<le> length (last ps) \<and> (\<forall>c \<in> set (last ps). is_alpha c))"

text \<open>\<open>\[[0-9]{1,3}\.[0-9]{1,3}\.[0-9]{1,3}\.[0-9]{1,3}\]\<close>\<close>

definition ip_literal :: "string \<Rightarrow> bool" where
  "ip_literal s =
     (2 \<le> length s \<and> hd s = CHR ''['' \<and> last s = CHR '']''
      \<and> (let ps = split_on (CHR ''.'') (butlast (tl s)) in
         length ps = 4 \<and> (\<forall>p \<in> set ps. 1 \<le> length p \<and> length p \<le> 3 \<and> (\<forall>c \<in> set p. is_digit c))))"

definition domain_ok :: "string \<Rightarrow> bool" where
  "domain_ok s = (ip_literal s \<or> domain_name s)"

definition EMAIL_REGEX_match :: "string \<Rightarrow> (string \<times> string) option" where
  "EMAIL_REGEX_match e =
     (if at_sign \<in> set e then
        (let domain = rev (takeWhile (\<lambda>c. c \<noteq> at_sign) (rev e));
             user = rev (tl (dropWhile (\<lambda>c. c \<noteq> at_sign) (rev e)))
         in if local_part_ok user \<and> domain_ok domain then Some (user, domain) else None)
      else None)"

section \<open>\<open>adjustEmail\<close> (register.ts, lines 258-273)\<close>

text \<open>
  \<open>user.replace(/[.]|(\+.*)/g, "")\<close>: scanning from the left, a dot is removed, and a
  plus sign is removed together with the rest of its line.
\<close>

function replace_dots_plus :: "string \<Rightarrow> string" where
  "replace_dots_plus [] = []"
| "replace_dots_plus (c # cs) =
     (if c = CHR ''.'' then replace_dots_plus cs
      else if c = CHR ''+'' then replace_dots_plus (dropWhile (\<lambda>x. \<not> line_terminator x) cs)
      else c # replace_dots_plus cs)"
  by pat_completeness auto
termination
  by (relation "measure length") (auto simp: length_dropWhile_le less_Suc_eq_le)

definition adjustEmail :: "string \<Rightarrow> string option" where
  "adjustEmail email =
     (case EMAIL_REGEX_match email of
        None \<Rightarrow> None
      | Some (user, domain) \<Rightarrow>
          if domain = ''gmail.com'' \<or> domain = ''googlemail.com''
          then Some (replace_dots_plus user @ ''@gmail.com'')
          else Some email)"

section \<open>Data model\<close>

text \<open>
  The \<open>User\<close> entity and its \<open>UserSettings\<close> relation. Of the settings only the
  locale depends on the request; the remaining settings fields are literals of the source.
  \<open>User_defaults\<close> holds the field initialisers of the class.
\<close>

record user_settings =
  locale_setting :: string

record user =
  user_id :: string
  created_at :: int
  username :: string
  discriminator :: string
  is_bot :: bool
  is_system :: bool
  desktop :: bool
  mobile :: bool
  premium :: bool
  premium_type :: nat
  bio :: string
  mfa_enabled :: bool
  verified :: bool
  disabled :: bool
  deleted :: bool
  email :: "string option"
  nsfw_allowed :: bool
  flags :: nat
  public_flags :: nat
  rights :: string
  fingerprints :: "string list"
  data_hash :: "string option"
  valid_tokens_since :: int
  premium_since :: "int option"
  extended_settings :: string
  settings :: user_settings

definition User_defaults :: user where
  "User_defaults =
     \<lparr> user_id = [], created_at = 0, username = [], discriminator = ''0000'',
       is_bot = False, is_system = False, desktop = True, mobile = True,
       premium = True, premium_type = 2, bio = [], mfa_enabled = False,
       verified = True, disabled = False, deleted = False, email = None,
       nsfw_allowed = True, flags = 0, public_flags = 0, rights = ''874722686401536'',
       fingerprints = [], data_hash = None, valid_tokens_since = 0, premium_since = None,
       extended_settings = ''{}'', settings = \<lparr> locale_setting = [] \<rparr> \<rparr>"

text \<open>The part of \<open>Config.get()\<close> that registration reads.\<close>

record config =
  allowNewRegistration :: bool
  requireInvite :: bool
  blockProxies :: bool
  email_necessary :: bool
  dateOfBirth_necessary :: bool
  dateOfBirth_minimum :: nat
  allowMultipleAccounts :: bool
  requireCaptcha :: bool
  captcha_enabled :: bool
  captcha_sitekey :: string
  captcha_service :: string

text \<open>\<open>req.body\<close> after validation, and \<open>req.language\<close>. Optional fields are options.\<close>

record request =
  body_email :: "string option"
  body_username :: string
  body_password :: string
  body_consent :: bool
  body_fingerprint :: "string option"
  body_invite :: "string option"
  body_date_of_birth :: "int option"
  body_captcha_key :: "string option"
  language :: string

datatype db_error = UniqueViolation | ConnectionLost

text \<open>
  What the handler throws: the generic \<open>HTTPError\<close> with its message, a \<open>FieldErrors\<close>
  value with its field and code (the message is the translation of the code), the
  \<open>TypeError\<close> of a property read on \<open>undefined\<close>, or the rejection of a write.
\<close>

datatype failure =
    HTTPError string
  | FieldErrors string string
  | TypeError
  | QueryFailed db_error

datatype response =
    Threw failure
  | CaptchaRequired string string
  | Token string

text \<open>
  The collaborators that are not part of the sources are parameters: the network-origin
  classification, \<open>trimSpecial\<close>, the successive results of
  \<open>Math.randomIntBetween(1, 9999)\<close>, \<open>bcrypt.hash\<close>, \<open>Snowflake.generate\<close>, the clock
  with the calendar arithmetic of \<open>setFullYear\<close>, the query
  \<open>fingerprints: In(fingerprint)\<close>, \<open>generateToken\<close>, and the fate of each write
  issued to the persistence layer (\<open>None\<close>: it commits), numbered in the order of issue.
  Two more things are decided by the persistence layer and the scheduler, not by the
  sources, and are parameters as well: whether a rejected \<open>user.save()\<close> leaves the
  settings row of its cascade behind, and which of two rejected writes of one
  \<open>Promise.all\<close> settles first.
\<close>

record env =
  config :: config
  isProxy :: bool
  trimSpecial :: "string \<Rightarrow> string"
  randomIntBetween :: "nat \<Rightarrow> nat"
  bcrypt_hash :: "string \<Rightarrow> string"
  Snowflake_generate :: string
  now :: int
  years_before :: "int \<Rightarrow> nat \<Rightarrow> int"
  find_fingerprint :: "user list \<Rightarrow> string option \<Rightarrow> user option"
  generateToken :: "string \<Rightarrow> string"
  save_outcome :: "nat \<Rightarrow> db_error option"
  cascade_kept :: "nat \<Rightarrow> bool"
  user_save_settles_first :: bool

text \<open>
  The persistence layer as the code sees it: the visible rows of the two tables, and the
  counters of random draws and of writes issued so far. The settings table is a list:
  every insert adds a row, also when an equal row is there already.
\<close>

record world =
  users :: "user list"
  settings_rows :: "user_settings list"
  rng_calls :: nat
  save_calls :: nat

text \<open>
  \<open>user.save()\<close>. When the write commits, the account row is added and, the
  \<open>settings\<close> relation being declared with \<open>cascade: true\<close>, a settings row with it.
  When the write is rejected, no account row is added; the settings row of the cascade
  stays behind or not, as the parameter \<open>cascade_kept\<close> says.
\<close>

definition save_user :: "env \<Rightarrow> user \<Rightarrow> world \<Rightarrow> db_error option \<times> world" where
  "save_user E u w =
     (case save_outcome E (save_calls w) of
        Some err \<Rightarrow>
          (Some err, w\<lparr>settings_rows := (if cascade_kept E (save_calls w)
                                            then settings_rows w @ [settings u]
                                            else settings_rows w),
                        save_calls := Suc (save_calls w)\<rparr>)
      | None \<Rightarrow> (None, w\<lparr>users := users w @ [u],
                           settings_rows := settings_rows w @ [settings u],
                           save_calls := Suc (save_calls w)\<rparr>))"

text \<open>\<open>settings.save()\<close>: when the write commits, a settings row is added.\<close>

definition save_settings :: "env \<Rightarrow> user_settings \<Rightarrow> world \<Rightarrow> db_error option \<times> world" where
  "save_settings E s w =
     (case save_outcome E (save_calls w) of
        Some err \<Rightarrow> (Some err, w\<lparr>save_calls := Suc (save_calls w)\<rparr>)
      | None \<Rightarrow> (None, w\<lparr>settings_rows := settings_rows w @ [s],
                           save_calls := Suc (save_calls w)\<rparr>))"

section \<open>The registration route (register.ts, lines 28-255)\<close>

text \<open>
  Lines 45-155: the checks before the password is hashed, block by block in the order of
  the source. Each block yields what it throws, or \<open>None\<close> when it lets the request pass.
\<close>

text \<open>Lines 45-50: the origin of the request.\<close>

definition check_origin :: "env \<Rightarrow> failure option" where
  "check_origin E =
     (if blockProxies (config E) \<and> isProxy E
      then Some (HTTPError ''Your IP is blocked from registration'')
      else None)"

text \<open>Lines 70-88: registration allowed, consent given, invite supplied when required.\<close>

definition check_policy :: "config \<Rightarrow> request \<Rightarrow> failure option" where
  "check_policy register req =
     (if \<not> allowNewRegistration register
      then Some (FieldErrors ''email'' ''REGISTRATION_DISABLED'')
      else if \<not> body_consent req
      then Some (FieldErrors ''consent'' ''CONSENT_REQUIRED'')
      else if requireInvite register \<and> \<not> truthy (body_invite req)
      then Some (FieldErrors ''email'' ''INVITE_ONLY'')
      else None)"

text \<open>
  Lines 90-109: the email. The lookup \<open>User.findOneOrFail({ email: adjusted_email })\<close>
  names no other column.
\<close>

definition check_email ::
  "config \<Rightarrow> string \<Rightarrow> string option \<Rightarrow> user list \<Rightarrow> failure option" where
  "check_email register email_in adjusted_email db =
     (if email_in \<noteq> [] then
        (if \<not> truthy adjusted_email
         then Some (FieldErrors ''email'' ''INVALID_EMAIL'')
         else if find (\<lambda>u. email u = adjusted_email) db \<noteq> None
         then Some (FieldErrors ''email'' ''EMAIL_ALREADY_REGISTERED'')
         else None)
      else if email_necessary register
      then Some (FieldErrors ''email'' ''BASE_TYPE_REQUIRED'')
      else None)"

text \<open>
  Lines 111-128: the date of birth. A missing date compares as false with the minimum.
\<close>

definition check_date_of_birth :: "env \<Rightarrow> request \<Rightarrow> failure option" where
  "check_date_of_birth E req =
     (let register = config E in
      if dateOfBirth_necessary register \<and> body_date_of_birth req = None
      then Some (FieldErrors ''date_of_birth'' ''BASE_TYPE_REQUIRED'')
      else if dateOfBirth_minimum register \<noteq> 0
      then (case body_date_of_birth req of
              None \<Rightarrow> None
            | Some d \<Rightarrow>
                if d > years_before E (now E) (dateOfBirth_minimum register)
                then Some (FieldErrors ''date_of_birth'' ''DATE_OF_BIRTH_UNDERAGE'')
                else None)
      else None)"

text \<open>Lines 130-142: the fingerprint.\<close>

definition check_fingerprint :: "env \<Rightarrow> request \<Rightarrow> user list \<Rightarrow> failure option" where
  "check_fingerprint E req db =
     (if \<not> allowMultipleAccounts (config E)
      then (if find_fingerprint E db (body_fingerprint req) \<noteq> None
            then Some (FieldErrors ''email'' ''EMAIL_ALREADY_REGISTERED'')
            else None)
      else None)"

text \<open>Lines 144-155: the captcha; the handler answers with the challenge and returns.\<close>

definition check_captcha :: "config \<Rightarrow> request \<Rightarrow> response option" where
  "check_captcha register req =
     (if requireCaptcha register \<and> captcha_enabled register
      then (if \<not> truthy (body_captcha_key req)
            then Some (CaptchaRequired (captcha_sitekey register) (captcha_service register))
            else None)
      else None)"

text \<open>
  The blocks in sequence. \<open>Some r\<close> is the response with which the handler leaves;
  \<open>None\<close> means that every check passed. Between the origin check and the others,
  \<open>adjustEmail(email)\<close> on line 58 reads \<open>email.match\<close>, which throws when no email
  was supplied.
\<close>

definition register_checks :: "env \<Rightarrow> request \<Rightarrow> world \<Rightarrow> response option" where
  "register_checks E req w =
     (case check_origin E of
        Some f \<Rightarrow> Some (Threw f)
      | None \<Rightarrow>
     (case body_email req of
        None \<Rightarrow> Some (Threw TypeError)
      | Some email_in \<Rightarrow>
     (case check_policy (config E) req of
        Some f \<Rightarrow> Some (Threw f)
      | None \<Rightarrow>
     (case check_email (config E) email_in (adjustEmail email_in) (users w) of
        Some f \<Rightarrow> Some (Threw f)
      | None \<Rightarrow>
     (case check_date_of_birth E req of
        Some f \<Rightarrow> Some (Threw f)
      | None \<Rightarrow>
     (case check_fingerprint E req (users w) of
        Some f \<Rightarrow> Some (Threw f)
      | None \<Rightarrow> check_captcha (config E) req))))))"

text \<open>
  Lines 165-169: the loop \<open>for (let tries = 0; tries < 5; tries++)\<close>. It carries the
  variables \<open>discriminator\<close> and \<open>exists\<close> and leaves at the first free candidate.
\<close>

function discriminator_loop ::
  "env \<Rightarrow> string \<Rightarrow> nat \<Rightarrow> string \<Rightarrow> user option \<Rightarrow> world \<Rightarrow> string \<times> user option \<times> world" where
  "discriminator_loop E adjusted_username tries disc ex w =
     (if tries < 5 then
        (let d = padStart 4 (CHR ''0'') (toString (randomIntBetween E (rng_calls w)));
             w' = w\<lparr>rng_calls := Suc (rng_calls w)\<rparr>;
             ex' = find (\<lambda>u. discriminator u = d \<and> username u = adjusted_username) (users w')
         in if ex' = None then (d, ex', w')
            else discriminator_loop E adjusted_username (Suc tries) d ex' w')
      else (disc, ex, w))"
  by pat_completeness auto
termination
  by (relation "measure (\<lambda>(E, n, tries, d, ex, w). 5 - tries)") auto

declare discriminator_loop.simps [simp del]

text \<open>Lines 184-252: the entity handed to \<open>save\<close>.\<close>

definition new_User :: "env \<Rightarrow> request \<Rightarrow> string \<Rightarrow> string \<Rightarrow> string option \<Rightarrow> string \<Rightarrow> user" where
  "new_User E req adjusted_username disc adjusted_email adjusted_password =
     User_defaults
       \<lparr> user_id := Snowflake_generate E, created_at := now E,
         username := adjusted_username, discriminator := disc,
         is_bot := False, is_system := False, desktop := False, mobile := False,
         premium := True, premium_type := 2, bio := [], mfa_enabled := False,
         verified := False, disabled := False, deleted := False,
         email := adjusted_email, nsfw_allowed := True, public_flags := 0, flags := 0,
         data_hash := Some adjusted_password, valid_tokens_since := now E,
         settings := \<lparr> locale_setting = language req \<rparr> \<rparr>"

text \<open>The whole handler: the response, and the world it leaves behind.\<close>

definition register_route :: "env \<Rightarrow> request \<Rightarrow> world \<Rightarrow> response \<times> world" where
  "register_route E req w =
     (case register_checks E req w of
        Some r \<Rightarrow> (r, w)
      | None \<Rightarrow>
          (let adjusted_email = (case body_email req of None \<Rightarrow> None | Some e \<Rightarrow> adjustEmail e);
               adjusted_username = trimSpecial E (body_username req);
               adjusted_password = bcrypt_hash E (body_password req);
               (disc, ex, w1) = discriminator_loop E adjusted_username 0 [] None w
           in if ex \<noteq> None
              then (Threw (FieldErrors ''username'' ''USERNAME_TOO_MANY_USERS''), w1)
              else (case save_user E (new_User E req adjusted_username disc adjusted_email
                                        adjusted_password) w1 of
                      (Some err, w2) \<Rightarrow> (Threw (QueryFailed err), w2)
                    | (None, w2) \<Rightarrow> (Token (generateToken E (Snowflake_generate E)), w2))))"

section \<open>\<open>User.register\<close> (the \<open>User\<close> entity, lines 252-306)\<close>

record register_args =
  arg_username :: string
  arg_password :: "string option"
  arg_email :: "string option"
  arg_date_of_birth :: "int option"
  arg_id :: "string option"
  arg_req_language :: "string option"

text \<open>Lines 271-276: the settings entity, whose locale comes from the request.\<close>

definition new_UserSettings :: "register_args \<Rightarrow> user_settings" where
  "new_UserSettings a =
     \<lparr> locale_setting = (if arg_req_language a = Some ''en'' then ''en-US''
                          else if truthy (arg_req_language a) then the (arg_req_language a)
                          else ''en-US'') \<rparr>"

text \<open>
  Lines 278-291: the account entity. \<open>User.create\<close> starts from the field initialisers
  of the class, of which \<open>created_at\<close> is the current time.
\<close>

definition register_User :: "env \<Rightarrow> register_args \<Rightarrow> user" where
  "register_User E a =
     User_defaults
       \<lparr> created_at := now E, username := trimSpecial E (arg_username a),
         discriminator := ''0000'',
         user_id := (if truthy (arg_id a) then the (arg_id a) else Snowflake_generate E),
         email := Some (trimSpecial E (arg_username a)),
         data_hash := arg_password a, valid_tokens_since := now E,
         extended_settings := ''{}'', premium_since := Some (now E),
         settings := new_UserSettings a, rights := ''874722686401536'' \<rparr>"

text \<open>
  Line 293: \<open>Promise.all([user.save(), settings.save()])\<close> issues both writes. The call is
  rejected when one of them is, with the rejection that settles first when both are, and
  nothing undoes a write that has committed. The detached auto-join task scheduled
  afterwards touches neither table and is left out.
\<close>

definition User_register :: "env \<Rightarrow> register_args \<Rightarrow> world \<Rightarrow> (failure + user) \<times> world" where
  "User_register E a w =
     (let new_settings = new_UserSettings a;
          new_user = register_User E a;
          (r1, w1) = save_user E new_user w;
          (r2, w2) = save_settings E new_settings w1
      in case (r1, r2) of
           (None, None) \<Rightarrow> (Inr new_user, w2)
         | (Some err, None) \<Rightarrow> (Inl (QueryFailed err), w2)
         | (None, Some err') \<Rightarrow> (Inl (QueryFailed err'), w2)
         | (Some err, Some err') \<Rightarrow>
             (Inl (QueryFailed (if user_save_settles_first E then err else err')), w2))"

section \<open>The spec's reading of an equivalent local part\<close>

text \<open>
  The spec calls two local parts equivalent on a free-mail domain when they differ only by
  dots and by a suffix that starts at the first plus sign: both have the same key.
\<close>

definition spec_local_key :: "string \<Rightarrow> string" where
  "spec_local_key u = filter (\<lambda>c. c \<noteq> CHR ''.'') (takeWhile (\<lambda>c. c \<noteq> CHR ''+'') u)"

definition recognized_domain :: "string \<Rightarrow> bool" where
  "recognized_domain d = (d = ''gmail.com'' \<or> d = ''googlemail.com'')"

section \<open>Vocabulary of the statements\<close>

text \<open>
  The candidate produced by the \<open>k\<close>-th random draw, and whether a pair of username
  and discriminator is found by the lookup of the allocation loop.
\<close>

definition drawn_discriminator :: "env \<Rightarrow> nat \<Rightarrow> string" where
  "drawn_discriminator E k = padStart 4 (CHR ''0'') (toString (randomIntBetween E k))"

definition taken :: "world \<Rightarrow> string \<Rightarrow> string \<Rightarrow> bool" where
  "taken w name d = (find (\<lambda>u. discriminator u = d \<and> username u = name) (users w) \<noteq> None)"

section \<open>Concrete inputs\<close>

definition example_config :: config where
  "example_config =
     \<lparr> allowNewRegistration = True, requireInvite = False, blockProxies = False,
       email_necessary = False, dateOfBirth_necessary = False, dateOfBirth_minimum = 0,
       allowMultipleAccounts = True, requireCaptcha = False, captcha_enabled = False,
       captcha_sitekey = [], captcha_service = [] \<rparr>"

definition fingerprint_lookup :: "user list \<Rightarrow> string option \<Rightarrow> user option" where
  "fingerprint_lookup db fp =
     (case fp of None \<Rightarrow> None | Some f \<Rightarrow> find (\<lambda>u. f \<in> set (fingerprints u)) db)"

definition example_env :: env where
  "example_env =
     \<lparr> config = example_config, isProxy = False,
       trimSpecial = filter (\<lambda>c. c \<notin> set [CHR 0x08, CHR 0x0A]),
       randomIntBetween = (\<lambda>i. 42 + i mod 7),
       bcrypt_hash = (\<lambda>p. ''bcrypt:'' @ p),
       Snowflake_generate = ''805826570869932034'',
       now = 1600000000000,
       years_before = (\<lambda>t y. t - int y * 31556952000),
       find_fingerprint = fingerprint_lookup,
       generateToken = (\<lambda>i. ''token:'' @ i),
       save_outcome = (\<lambda>k. None),
       cascade_kept = (\<lambda>k. False),
       user_save_settles_first = True \<rparr>"

definition example_request :: request where
  "example_request =
     \<lparr> body_email = Some ''a.lice+chat@gmail.com'', body_username = ''alice'',
       body_password = ''longenough1'', body_consent = True, body_fingerprint = None,
       body_invite = None, body_date_of_birth = None, body_captcha_key = None,
       language = ''en'' \<rparr>"

definition empty_world :: world where
  "empty_world = \<lparr> users = [], settings_rows = [], rng_calls = 0, save_calls = 0 \<rparr>"

text \<open>A world in which one name holds every discriminator from 0001 to 9999.\<close>

definition saturated_world :: "string \<Rightarrow> world" where
  "saturated_world name =
     empty_world\<lparr>users :=
       map (\<lambda>n. User_defaults\<lparr>username := name,
                                discriminator := padStart 4 (CHR ''0'') (toString n)\<rparr>)
           [1..<10000]\<rparr>"

text \<open>A world whose only account is soft-deleted and holds an email.\<close>

definition deleted_holder_world :: world where
  "deleted_holder_world =
     empty_world\<lparr>users :=
       [User_defaults\<lparr>user_id := ''1'', username := ''bob'', discriminator := ''0007'',
                      email := Some ''bob@example.org'', deleted := True\<rparr>]\<rparr>"

text \<open>A world whose only account is active and holds a canonical Gmail address.\<close>

definition active_holder_world :: world where
  "active_holder_world =
     empty_world\<lparr>users :=
       [User_defaults\<lparr>user_id := ''2'', username := ''alice'', discriminator := ''0001'',
                      email := Some ''alice@gmail.com''\<rparr>]\<rparr>"


text \<open>A world whose only account holds the candidate of the first draw of the example.\<close>

definition first_candidate_taken_world :: world where
  "first_candidate_taken_world =
     empty_world\<lparr>users :=
       [User_defaults\<lparr>user_id := ''4'', username := ''alice'', discriminator := ''0042''\<rparr>]\<rparr>"

definition first_write_rejected :: "nat \<Rightarrow> db_error option" where
  "first_write_rejected k = (if k = 0 then Some UniqueViolation else None)"

definition example_args :: register_args where
  "example_args =
     \<lparr> arg_username = ''alice'', arg_password = Some ''longenough1'',
       arg_email = Some ''alice@example.org'', arg_date_of_birth = None,
       arg_id = None, arg_req_language = Some ''en'' \<rparr>"

section \<open>Decimal rendering and padding\<close>

lemma below_ten_cases:
  "(k::nat) < 10 \<Longrightarrow> k = 0 \<or> k = 1 \<or> k = 2 \<or> k = 3 \<or> k = 4 \<or> k = 5 \<or> k = 6 \<or> k = 7 \<or> k = 8 \<or> k = 9"
  by arith

lemma digit_char_is_digit: "is_digit (digit_char d)"
proof -
  have "d mod 10 < 10" by simp
  from below_ten_cases[OF this] show ?thesis
    unfolding is_digit_def digit_char_def by (elim disjE) simp_all
qed

lemma toString_digits: "\<forall>c \<in> set (toString n). is_digit c"
proof (induction n rule: toString.induct)
  case (1 n)
  show ?case
  proof (cases "n < 10")
    case True
    then show ?thesis by (subst toString.simps) (simp add: digit_char_is_digit)
  next
    case False
    with 1 show ?thesis by (subst toString.simps) (simp add: digit_char_is_digit)
  qed
qed

lemma toString_length: "0 < k \<Longrightarrow> n < 10 ^ k \<Longrightarrow> length (toString n) \<le> k"
proof (induction n arbitrary: k rule: toString.induct)
  case (1 n)
  show ?case
  proof (cases "n < 10")
    case True
    with 1 show ?thesis by (subst toString.simps) simp
  next
    case False
    then have k1: "1 < k" using 1(2,3) by (cases "k = 1") auto
    then obtain j where j: "k = Suc j" "0 < j" by (cases k) auto
    have "n div 10 < 10 ^ j" using 1(3) j by (simp add: less_mult_imp_div_less mult.commute)
    then have "length (toString (n div 10)) \<le> j" using 1(1)[OF False j(2)] by simp
    then show ?thesis using False j by (subst toString.simps) simp
  qed
qed

lemma digit_char_zero: "d < 10 \<Longrightarrow> digit_char d = CHR ''0'' \<Longrightarrow> d = 0"
proof -
  assume "d < 10" and z: "digit_char d = CHR ''0''"
  from below_ten_cases[OF this(1)] z show ?thesis
    unfolding digit_char_def by (elim disjE) simp_all
qed

lemma toString_nonzero: "0 < n \<Longrightarrow> \<exists>c \<in> set (toString n). c \<noteq> CHR ''0''"
proof (induction n rule: toString.induct)
  case (1 n)
  show ?case
  proof (cases "n < 10")
    case True
    with 1(2) have "digit_char n \<noteq> CHR ''0''" using digit_char_zero by auto
    with True show ?thesis by (subst toString.simps) simp
  next
    case False
    then have "0 < n div 10" by simp
    with 1(1)[OF False] obtain c where "c \<in> set (toString (n div 10))" "c \<noteq> CHR ''0''" by auto
    with False show ?thesis by (subst toString.simps) auto
  qed
qed

lemma padded_discriminator:
  assumes "1 \<le> n" "n \<le> 9999"
  shows "length (padStart 4 (CHR ''0'') (toString n)) = 4"
    and "\<forall>c \<in> set (padStart 4 (CHR ''0'') (toString n)). is_digit c"
    and "padStart 4 (CHR ''0'') (toString n) \<noteq> ''0000''"
proof -
  have len: "length (toString n) \<le> 4" using assms toString_length[of 4 n] by simp
  then show "length (padStart 4 (CHR ''0'') (toString n)) = 4"
    by (simp add: padStart_def)
  have "is_digit (CHR ''0'')" by (simp add: is_digit_def)
  then show "\<forall>c \<in> set (padStart 4 (CHR ''0'') (toString n)). is_digit c"
    using toString_digits[of n] by (auto simp: padStart_def)
  obtain c where "c \<in> set (toString n)" "c \<noteq> CHR ''0''"
    using toString_nonzero[of n] assms by auto
  then have "c \<in> set (padStart 4 (CHR ''0'') (toString n))" by (simp add: padStart_def)
  moreover have "set ''0000'' = {CHR ''0''}" by simp
  ultimately show "padStart 4 (CHR ''0'') (toString n) \<noteq> ''0000''"
    using \<open>c \<noteq> CHR ''0''\<close> by (metis singletonD)
qed

section \<open>\<open>User.register\<close>: what is stored\<close>

text \<open>
  C10: for every call of \<open>User.register\<close>, the email stored on the created account is
  the trimmed username argument, and the \<open>email\<close> argument is never read: changing it
  changes neither the result nor the rows written.
\<close>

theorem User_register_email_is_username:
  "User_register E (a\<lparr>arg_email := e\<rparr>) w = User_register E a w
   \<and> (fst (User_register E a w) = Inr u \<longrightarrow>
        email u = Some (trimSpecial E (arg_username a))
        \<and> users (snd (User_register E a w)) = users w @ [u])"
  by (auto simp: User_register_def register_User_def new_UserSettings_def save_user_def save_settings_def Let_def
           split: option.splits)

theorem User_register_email_is_username_witness:
  "\<not> isl (fst (User_register example_env example_args empty_world))
   \<and> email (projr (fst (User_register example_env example_args empty_world))) = Some ''alice''
   \<and> User_register example_env (example_args\<lparr>arg_email := Some ''mallory@example.org''\<rparr>) empty_world
       = User_register example_env example_args empty_world"
proof -
  have ok: "\<not> isl (fst (User_register example_env example_args empty_world))"
    by code_simp
  then have h: "fst (User_register example_env example_args empty_world)
                = Inr (projr (fst (User_register example_env example_args empty_world)))"
    by simp
  have t: "trimSpecial example_env (arg_username example_args) = ''alice''"
    by (simp add: example_env_def example_args_def)
  from User_register_email_is_username
         [where E = example_env and a = example_args and e = "Some ''mallory@example.org''"
            and w = empty_world
            and u = "projr (fst (User_register example_env example_args empty_world))"]
       h ok t
  show ?thesis by simp
qed

section \<open>The address grammar and \<open>adjustEmail\<close>\<close>

lemma atom_char_no_line_terminator: "atom_char c \<Longrightarrow> \<not> line_terminator c"
  by (auto simp: atom_char_def js_space_def line_terminator_def)

lemma dot_atom_from_chars: "dot_atom_from b s \<Longrightarrow> \<forall>c \<in> set s. atom_char c \<or> c = CHR ''.''"
  by (induction s arbitrary: b) (auto split: if_splits)

lemma dot_atom_no_line_terminator:
  assumes "dot_atom s" shows "\<forall>c \<in> set s. \<not> line_terminator c"
proof
  fix c assume "c \<in> set s"
  with assms dot_atom_from_chars[of False s] have "atom_char c \<or> c = CHR ''.''"
    by (simp add: dot_atom_def)
  then show "\<not> line_terminator c"
    using atom_char_no_line_terminator by (auto simp: line_terminator_def)
qed

lemma ends_and_middle: "2 \<le> length s \<Longrightarrow> s = hd s # butlast (tl s) @ [last s]"
proof -
  assume len: "2 \<le> length s"
  then obtain a t where s: "s = a # t" by (cases s) auto
  with len have t: "t \<noteq> []" by auto
  then have "t = butlast t @ [last t]" by simp
  with s t show ?thesis by simp
qed

lemma quoted_local_no_line_terminator:
  assumes "quoted_local s" shows "\<forall>c \<in> set s. \<not> line_terminator c"
proof -
  from assms have len: "2 \<le> length s" and h: "hd s = dquote" and l: "last s = dquote"
    and m: "\<forall>c \<in> set (butlast (tl s)). \<not> line_terminator c"
    by (auto simp: quoted_local_def)
  have q: "\<not> line_terminator dquote" by (simp add: line_terminator_def dquote_def)
  have "set s = insert (hd s) (set (butlast (tl s)) \<union> {last s})"
    by (subst ends_and_middle[OF len]) simp
  with h l m q show ?thesis by auto
qed

lemma local_part_no_line_terminator:
  "local_part_ok s \<Longrightarrow> \<forall>c \<in> set s. \<not> line_terminator c"
  using dot_atom_no_line_terminator quoted_local_no_line_terminator
  by (auto simp: local_part_ok_def)

lemma replace_dots_plus_is_key:
  "\<forall>c \<in> set u. \<not> line_terminator c \<Longrightarrow> replace_dots_plus u = spec_local_key u"
proof (induction u)
  case Nil
  then show ?case by (simp add: spec_local_key_def)
next
  case (Cons c cs)
  then have ih: "replace_dots_plus cs = spec_local_key cs" by simp
  have "dropWhile (\<lambda>x. \<not> line_terminator x) cs = []"
    using Cons.prems by (simp add: dropWhile_eq_Nil_conv)
  then have rest: "replace_dots_plus (dropWhile (\<lambda>x. \<not> line_terminator x) cs) = []"
    by (simp only: replace_dots_plus.simps)
  show ?case
    using ih rest by (simp add: spec_local_key_def del: dropWhile_eq_Nil_conv)
qed

lemma replace_dots_plus_clean:
  "CHR ''.'' \<notin> set (replace_dots_plus u) \<and> CHR ''+'' \<notin> set (replace_dots_plus u)"
  by (induction u rule: replace_dots_plus.induct) auto

lemma replace_dots_plus_fixed:
  "CHR ''.'' \<notin> set s \<Longrightarrow> CHR ''+'' \<notin> set s \<Longrightarrow> replace_dots_plus s = s"
  by (induction s) auto

lemma replace_dots_plus_twice: "replace_dots_plus (replace_dots_plus u) = replace_dots_plus u"
  using replace_dots_plus_clean replace_dots_plus_fixed by blast

lemma match_decompose:
  assumes "EMAIL_REGEX_match e = Some (u, d)"
  shows "e = u @ at_sign # d" and "at_sign \<notin> set d" and "local_part_ok u" and "domain_ok d"
proof -
  let ?P = "\<lambda>c. c \<noteq> at_sign"
  from assms have mem: "at_sign \<in> set e"
    by (auto simp: EMAIL_REGEX_match_def split: if_splits)
  with assms have d: "d = rev (takeWhile ?P (rev e))"
    and u: "u = rev (tl (dropWhile ?P (rev e)))"
    and ok: "local_part_ok u \<and> domain_ok d"
    by (auto simp: EMAIL_REGEX_match_def Let_def split: if_splits)
  from ok show "local_part_ok u" and "domain_ok d" by simp_all
  from d show "at_sign \<notin> set d" using set_takeWhileD by fastforce
  from mem have ne: "dropWhile ?P (rev e) \<noteq> []" by (simp add: dropWhile_eq_Nil_conv)
  then have "hd (dropWhile ?P (rev e)) = at_sign" using hd_dropWhile[of ?P "rev e"] by simp
  with ne have dw: "dropWhile ?P (rev e) = at_sign # tl (dropWhile ?P (rev e))"
    by (cases "dropWhile ?P (rev e)") auto
  have "rev e = takeWhile ?P (rev e) @ dropWhile ?P (rev e)" by simp
  then have "rev e = rev d @ at_sign # rev u" using dw d u by simp
  then have "rev (rev e) = rev (rev d @ at_sign # rev u)" by simp
  then show "e = u @ at_sign # d" by simp
qed

lemma match_compose:
  assumes "at_sign \<notin> set d"
  shows "EMAIL_REGEX_match (u @ at_sign # d)
         = (if local_part_ok u \<and> domain_ok d then Some (u, d) else None)"
proof -
  let ?P = "\<lambda>c. c \<noteq> at_sign"
  have r: "rev (u @ at_sign # d) = rev d @ at_sign # rev u" by simp
  have all: "\<forall>c \<in> set (rev d). ?P c" using assms by auto
  have "takeWhile ?P (rev d @ at_sign # rev u) = rev d @ takeWhile ?P (at_sign # rev u)"
    by (rule takeWhile_append2) (use all in blast)
  then have tw: "takeWhile ?P (rev d @ at_sign # rev u) = rev d" by simp
  have "dropWhile ?P (rev d @ at_sign # rev u) = dropWhile ?P (at_sign # rev u)"
    by (rule dropWhile_append2) (use all in blast)
  then have dw: "dropWhile ?P (rev d @ at_sign # rev u) = at_sign # rev u" by simp
  show ?thesis
    unfolding EMAIL_REGEX_match_def r tw dw by (simp add: Let_def)
qed

lemma gmail_domain_ok: "domain_ok ''gmail.com''"
  by code_simp

lemma gmail_suffix: "s @ ''@gmail.com'' = s @ at_sign # ''gmail.com''"
  by (simp add: at_sign_def)

lemma match_gmail_result:
  "EMAIL_REGEX_match (s @ ''@gmail.com'')
   = (if local_part_ok s then Some (s, ''gmail.com'') else None)"
  unfolding gmail_suffix
  by (subst match_compose) (simp_all add: at_sign_def gmail_domain_ok)

lemma adjustEmail_recognized:
  "EMAIL_REGEX_match e = Some (u, d) \<Longrightarrow> recognized_domain d
   \<Longrightarrow> adjustEmail e = Some (replace_dots_plus u @ ''@gmail.com'')"
  by (simp add: adjustEmail_def recognized_domain_def)

lemma adjustEmail_unrecognized:
  "EMAIL_REGEX_match e = Some (u, d) \<Longrightarrow> \<not> recognized_domain d \<Longrightarrow> adjustEmail e = Some e"
  by (simp add: adjustEmail_def recognized_domain_def)

text \<open>
  C8 as stated, that \<open>adjustEmail\<close> applied to its own result returns that result
  whenever it returned one, fails: a Gmail local part that begins with a plus sign is
  reduced to the empty string, and the result is then outside the address grammar.
\<close>

theorem adjustEmail_idempotent_counterexample:
  "adjustEmail ''+a@gmail.com'' = Some ''@gmail.com''
   \<and> adjustEmail ''@gmail.com'' \<noteq> Some ''@gmail.com''"
  by code_simp

text \<open>
  C8, amended: when \<open>adjustEmail\<close> returns a value, applying it to that value either
  returns the same value, or returns nothing; the latter only for an input on
  \<open>gmail.com\<close> or \<open>googlemail.com\<close> whose reduced local part is no longer a valid
  local part.
\<close>

theorem adjustEmail_idempotent_on_valid_results:
  assumes "adjustEmail x = Some r"
  shows "adjustEmail r = Some r
         \<or> (adjustEmail r = None
            \<and> (\<exists>u d. EMAIL_REGEX_match x = Some (u, d) \<and> recognized_domain d
                      \<and> \<not> local_part_ok (replace_dots_plus u)))"
proof -
  from assms obtain u d where m: "EMAIL_REGEX_match x = Some (u, d)"
    by (auto simp: adjustEmail_def split: option.splits)
  show ?thesis
  proof (cases "recognized_domain d")
    case False
    with m assms have "r = x" by (simp add: adjustEmail_unrecognized)
    with assms show ?thesis by simp
  next
    case True
    with m assms have r: "r = replace_dots_plus u @ ''@gmail.com''"
      by (simp add: adjustEmail_recognized)
    show ?thesis
    proof (cases "local_part_ok (replace_dots_plus u)")
      case True
      then have "EMAIL_REGEX_match r = Some (replace_dots_plus u, ''gmail.com'')"
        by (simp add: r match_gmail_result)
      then have "adjustEmail r = Some (replace_dots_plus (replace_dots_plus u) @ ''@gmail.com'')"
        by (rule adjustEmail_recognized) (simp add: recognized_domain_def)
      then show ?thesis by (simp add: r replace_dots_plus_twice)
    next
      case False
      then have "EMAIL_REGEX_match r = None" by (simp add: r match_gmail_result)
      then have "adjustEmail r = None" by (simp add: adjustEmail_def)
      with m \<open>recognized_domain d\<close> False show ?thesis by blast
    qed
  qed
qed

theorem adjustEmail_idempotent_on_valid_results_witness:
  "adjustEmail ''a.lice+chat@googlemail.com'' = Some ''alice@gmail.com''
   \<and> adjustEmail ''alice@gmail.com'' = Some ''alice@gmail.com''"
proof -
  have h: "adjustEmail ''a.lice+chat@googlemail.com'' = Some ''alice@gmail.com''"
    by code_simp
  have n: "adjustEmail ''alice@gmail.com'' \<noteq> None" by code_simp
  from adjustEmail_idempotent_on_valid_results[OF h] n h show ?thesis by simp
qed

text \<open>
  C9: two valid addresses with the same domain whose local parts differ only by dots and
  by a suffix from the first plus sign are mapped to one canonical value when the domain
  is \<open>gmail.com\<close> or \<open>googlemail.com\<close>; on any other domain each is returned
  unchanged, so that distinct inputs stay distinct.
\<close>

theorem adjustEmail_collapses_variants:
  assumes "EMAIL_REGEX_match e1 = Some (u1, d)" and "EMAIL_REGEX_match e2 = Some (u2, d)"
    and "spec_local_key u1 = spec_local_key u2"
  shows "(recognized_domain d \<longrightarrow>
            adjustEmail e1 = Some (spec_local_key u1 @ ''@gmail.com'')
            \<and> adjustEmail e2 = adjustEmail e1)
         \<and> (\<not> recognized_domain d \<longrightarrow>
              adjustEmail e1 = Some e1 \<and> adjustEmail e2 = Some e2
              \<and> (e1 \<noteq> e2 \<longrightarrow> adjustEmail e1 \<noteq> adjustEmail e2))"
proof -
  have k1: "replace_dots_plus u1 = spec_local_key u1"
    using match_decompose(3)[OF assms(1)] local_part_no_line_terminator
    by (simp add: replace_dots_plus_is_key)
  have k2: "replace_dots_plus u2 = spec_local_key u2"
    using match_decompose(3)[OF assms(2)] local_part_no_line_terminator
    by (simp add: replace_dots_plus_is_key)
  show ?thesis
    using assms k1 k2
    by (auto simp: adjustEmail_recognized adjustEmail_unrecognized)
qed

theorem adjustEmail_collapses_variants_witness:
  "adjustEmail ''a.lice+chat@gmail.com'' = Some ''alice@gmail.com''
   \<and> adjustEmail ''al.ice@gmail.com'' = Some ''alice@gmail.com''
   \<and> adjustEmail ''a.lice+chat@example.org'' = Some ''a.lice+chat@example.org''
   \<and> adjustEmail ''al.ice@example.org'' = Some ''al.ice@example.org''"
proof -
  have g1: "EMAIL_REGEX_match ''a.lice+chat@gmail.com'' = Some (''a.lice+chat'', ''gmail.com'')"
    by code_simp
  have g2: "EMAIL_REGEX_match ''al.ice@gmail.com'' = Some (''al.ice'', ''gmail.com'')"
    by code_simp
  have o1: "EMAIL_REGEX_match ''a.lice+chat@example.org'' = Some (''a.lice+chat'', ''example.org'')"
    by code_simp
  have o2: "EMAIL_REGEX_match ''al.ice@example.org'' = Some (''al.ice'', ''example.org'')"
    by code_simp
  have k: "spec_local_key ''a.lice+chat'' = spec_local_key ''al.ice''"
    by (simp add: spec_local_key_def)
  have kv: "spec_local_key ''a.lice+chat'' = ''alice''"
    by (simp add: spec_local_key_def)
  have rg: "recognized_domain ''gmail.com''" and ro: "\<not> recognized_domain ''example.org''"
    by (simp_all add: recognized_domain_def)
  from adjustEmail_collapses_variants[OF g1 g2 k] adjustEmail_collapses_variants[OF o1 o2 k]
       rg ro kv
  show ?thesis by simp
qed

section \<open>The allocation loop\<close>

lemma taken_rng_calls [simp]: "taken (w\<lparr>rng_calls := k\<rparr>) n x = taken w n x"
  by (simp add: taken_def)

lemma discriminator_loop_done:
  "\<not> t < 5 \<Longrightarrow> discriminator_loop E n t d ex w = (d, ex, w)"
  by (subst discriminator_loop.simps) simp

lemma discriminator_loop_free:
  "t < 5 \<Longrightarrow> \<not> taken w n (drawn_discriminator E (rng_calls w))
   \<Longrightarrow> discriminator_loop E n t d ex w
       = (drawn_discriminator E (rng_calls w), None, w\<lparr>rng_calls := Suc (rng_calls w)\<rparr>)"
  by (subst discriminator_loop.simps) (simp add: Let_def taken_def drawn_discriminator_def)

lemma discriminator_loop_collision:
  "t < 5 \<Longrightarrow> taken w n (drawn_discriminator E (rng_calls w))
   \<Longrightarrow> discriminator_loop E n t d ex w
       = discriminator_loop E n (Suc t) (drawn_discriminator E (rng_calls w))
           (find (\<lambda>u. discriminator u = drawn_discriminator E (rng_calls w) \<and> username u = n)
                 (users w))
           (w\<lparr>rng_calls := Suc (rng_calls w)\<rparr>)"
  by (subst discriminator_loop.simps) (auto simp: Let_def taken_def drawn_discriminator_def)

lemma discriminator_loop_result:
  "t < 5 \<Longrightarrow> discriminator_loop E n t d ex w = (d', ex', w')
   \<Longrightarrow> \<exists>i. rng_calls w \<le> i \<and> i < rng_calls w + (5 - t)
          \<and> w' = w\<lparr>rng_calls := Suc i\<rparr>
          \<and> d' = drawn_discriminator E i
          \<and> (ex' \<noteq> None) = taken w n d'
          \<and> (ex' \<noteq> None \<longrightarrow> Suc i = rng_calls w + (5 - t))
          \<and> (\<forall>j. rng_calls w \<le> j \<and> j < i \<longrightarrow> taken w n (drawn_discriminator E j))"
proof (induction "5 - t" arbitrary: t d ex w)
  case 0
  then show ?case by simp
next
  case (Suc k)
  let ?d = "drawn_discriminator E (rng_calls w)"
  let ?w = "w\<lparr>rng_calls := Suc (rng_calls w)\<rparr>"
  let ?ex = "find (\<lambda>u. discriminator u = ?d \<and> username u = n) (users w)"
  have t: "t < 5" by fact
  show ?case
  proof (cases "taken w n ?d")
    case False
    with t Suc.prems(2) have "d' = ?d" "ex' = None" "w' = ?w"
      by (simp_all add: discriminator_loop_free)
    with t False show ?thesis
      by (intro exI[of _ "rng_calls w"]) auto
  next
    case True
    then have ex: "?ex \<noteq> None" by (simp add: taken_def)
    from True t Suc.prems(2)
    have rec: "discriminator_loop E n (Suc t) ?d ?ex ?w = (d', ex', w')"
      by (simp add: discriminator_loop_collision)
    show ?thesis
    proof (cases "Suc t < 5")
      case False
      with rec have "d' = ?d" "ex' = ?ex" "w' = ?w"
        by (auto simp: discriminator_loop_done)
      with t True ex False show ?thesis
        by (intro exI[of _ "rng_calls w"]) auto
    next
      case less: True
      from Suc.hyps(2) have k: "k = 5 - Suc t" by simp
      from Suc.hyps(1)[OF k less rec]
      obtain i where i: "Suc (rng_calls w) \<le> i" "i < Suc (rng_calls w) + (5 - Suc t)"
        "w' = w\<lparr>rng_calls := Suc i\<rparr>" "d' = ?d \<or> d' = drawn_discriminator E i"
        "d' = drawn_discriminator E i"
        "(ex' \<noteq> None) = taken w n d'"
        "\<forall>j. Suc (rng_calls w) \<le> j \<and> j < i \<longrightarrow> taken w n (drawn_discriminator E j)"
        "ex' \<noteq> None \<longrightarrow> Suc i = Suc (rng_calls w) + (5 - Suc t)"
        by auto
      have "\<forall>j. rng_calls w \<le> j \<and> j < i \<longrightarrow> taken w n (drawn_discriminator E j)"
      proof (intro allI impI)
        fix j assume j: "rng_calls w \<le> j \<and> j < i"
        show "taken w n (drawn_discriminator E j)"
        proof (cases "j = rng_calls w")
          case True with \<open>taken w n ?d\<close> show ?thesis by simp
        next
          case False
          with j have "Suc (rng_calls w) \<le> j \<and> j < i" by simp
          with i(7) show ?thesis by simp
        qed
      qed
      with i t show ?thesis
        by (intro exI[of _ i]) auto
    qed
  qed
qed

lemma discriminator_loop_exhausted:
  assumes "\<forall>i<5. taken w n (drawn_discriminator E (rng_calls w + i))"
  shows "\<exists>d' u. discriminator_loop E n 0 d ex w = (d', Some u, w\<lparr>rng_calls := rng_calls w + 5\<rparr>)"
proof -
  obtain d' ex' w' where r: "discriminator_loop E n 0 d ex w = (d', ex', w')"
    by (cases "discriminator_loop E n 0 d ex w") auto
  have z: "(0::nat) < 5" by simp
  from discriminator_loop_result[OF z r] obtain i where
    i: "rng_calls w \<le> i" "i < rng_calls w + 5" "w' = w\<lparr>rng_calls := Suc i\<rparr>"
       "d' = drawn_discriminator E i" "(ex' \<noteq> None) = taken w n d'"
       "ex' \<noteq> None \<longrightarrow> Suc i = rng_calls w + 5"
    by auto
  from i(1,2) obtain k where k: "i = rng_calls w + k" "k < 5"
    by (metis add_diff_inverse_nat nat_add_left_cancel_less not_less)
  with assms i(4,5) have ex: "ex' \<noteq> None" by simp
  then obtain u where u: "ex' = Some u" by auto
  from ex i(6) have "Suc i = rng_calls w + 5" by simp
  with i(3) have "w' = w\<lparr>rng_calls := rng_calls w + 5\<rparr>" by simp
  with r u show ?thesis by simp
qed

lemma discriminator_loop_found_free:
  assumes "discriminator_loop E n 0 d ex w = (d', None, w')"
  shows "\<exists>i<5. d' = drawn_discriminator E (rng_calls w + i) \<and> \<not> taken w n d'
               \<and> w' = w\<lparr>rng_calls := Suc (rng_calls w + i)\<rparr>"
proof -
  have z: "(0::nat) < 5" by simp
  from discriminator_loop_result[OF z assms] obtain i where
    i: "rng_calls w \<le> i" "i < rng_calls w + 5" "w' = w\<lparr>rng_calls := Suc i\<rparr>"
       "d' = drawn_discriminator E i" "\<not> taken w n d'"
    by auto
  from i(1,2) obtain k where k: "i = rng_calls w + k" "k < 5"
    by (metis add_diff_inverse_nat nat_add_left_cancel_less not_less)
  with i show ?thesis by auto
qed

lemma discriminator_loop_some_free:
  assumes "i < 5" and "\<not> taken w n (drawn_discriminator E (rng_calls w + i))"
  shows "\<exists>d' w'. discriminator_loop E n 0 d ex w = (d', None, w')"
proof -
  obtain d' ex' w' where r: "discriminator_loop E n 0 d ex w = (d', ex', w')"
    by (cases "discriminator_loop E n 0 d ex w") auto
  have z: "(0::nat) < 5" by simp
  from discriminator_loop_result[OF z r] obtain j where
    j: "rng_calls w \<le> j" "d' = drawn_discriminator E j" "(ex' \<noteq> None) = taken w n d'"
       "ex' \<noteq> None \<longrightarrow> Suc j = rng_calls w + 5"
       "\<forall>k. rng_calls w \<le> k \<and> k < j \<longrightarrow> taken w n (drawn_discriminator E k)"
    by auto
  have "ex' = None"
  proof (rule ccontr)
    assume ne: "ex' \<noteq> None"
    with j(4) have last: "j = rng_calls w + 4" by simp
    show False
    proof (cases "i = 4")
      case True
      with last j(2,3) ne assms(2) show False by simp
    next
      case False
      with assms(1) last have "rng_calls w \<le> rng_calls w + i \<and> rng_calls w + i < j" by simp
      with j(5) assms(2) show False by blast
    qed
  qed
  with r show ?thesis by simp
qed

lemma discriminator_loop_first_free:
  assumes "i < 5"
    and "\<not> taken w n (drawn_discriminator E (rng_calls w + i))"
    and "\<forall>j<i. taken w n (drawn_discriminator E (rng_calls w + j))"
  shows "discriminator_loop E n 0 d ex w
         = (drawn_discriminator E (rng_calls w + i), None,
            w\<lparr>rng_calls := Suc (rng_calls w + i)\<rparr>)"
proof -
  from discriminator_loop_some_free[OF assms(1,2)]
  obtain d' w' where r: "discriminator_loop E n 0 d ex w = (d', None, w')" by blast
  have z: "(0::nat) < 5" by simp
  from discriminator_loop_result[OF z r] obtain k where
    k: "rng_calls w \<le> k" "w' = w\<lparr>rng_calls := Suc k\<rparr>" "d' = drawn_discriminator E k"
       "\<not> taken w n d'"
       "\<forall>j. rng_calls w \<le> j \<and> j < k \<longrightarrow> taken w n (drawn_discriminator E j)"
    by auto
  have "k = rng_calls w + i"
  proof (rule ccontr)
    assume ne: "k \<noteq> rng_calls w + i"
    show False
    proof (cases "k < rng_calls w + i")
      case True
      with k(1) have "k - rng_calls w < i" and "k = rng_calls w + (k - rng_calls w)" by simp_all
      with assms(3) have "taken w n (drawn_discriminator E k)" by metis
      with k(3,4) show False by simp
    next
      case False
      with ne have "rng_calls w \<le> rng_calls w + i \<and> rng_calls w + i < k" by simp
      with k(5) assms(2) show False by blast
    qed
  qed
  with r k(2,3) show ?thesis by simp
qed

section \<open>The registration route\<close>

lemma register_route_rejected:
  "register_checks E req w = Some r \<Longrightarrow> register_route E req w = (r, w)"
  by (simp add: register_route_def)

lemma register_route_exhausted:
  assumes "register_checks E req w = None"
    and "\<forall>i<5. taken w (trimSpecial E (body_username req))
                  (drawn_discriminator E (rng_calls w + i))"
  shows "register_route E req w
         = (Threw (FieldErrors ''username'' ''USERNAME_TOO_MANY_USERS''),
            w\<lparr>rng_calls := rng_calls w + 5\<rparr>)"
proof -
  from discriminator_loop_exhausted[OF assms(2), of "[]" None]
  obtain d' u where "discriminator_loop E (trimSpecial E (body_username req)) 0 [] None w
                     = (d', Some u, w\<lparr>rng_calls := rng_calls w + 5\<rparr>)" by blast
  with assms(1) show ?thesis by (simp add: register_route_def Let_def)
qed

lemma register_route_write:
  assumes "register_checks E req w = None"
    and "discriminator_loop E (trimSpecial E (body_username req)) 0 [] None w = (d', None, w1)"
  shows "register_route E req w
         = (case save_user E (new_User E req (trimSpecial E (body_username req)) d'
                                (case body_email req of None \<Rightarrow> None | Some e \<Rightarrow> adjustEmail e)
                                (bcrypt_hash E (body_password req))) w1 of
              (Some err, w2) \<Rightarrow> (Threw (QueryFailed err), w2)
            | (None, w2) \<Rightarrow> (Token (generateToken E (Snowflake_generate E)), w2))"
  using assms by (simp add: register_route_def Let_def)

lemma register_route_rng_calls:
  "rng_calls (snd (register_route E req w)) \<le> rng_calls w + 5"
proof (cases "register_checks E req w")
  case (Some r)
  then show ?thesis by (simp add: register_route_rejected)
next
  case None
  obtain d' ex' w1 where
    r: "discriminator_loop E (trimSpecial E (body_username req)) 0 [] None w = (d', ex', w1)"
    by (cases "discriminator_loop E (trimSpecial E (body_username req)) 0 [] None w") auto
  have z: "(0::nat) < 5" by simp
  from discriminator_loop_result[OF z r] obtain i where
    i: "i < rng_calls w + 5" "w1 = w\<lparr>rng_calls := Suc i\<rparr>" by auto
  show ?thesis
  proof (cases ex')
    case (Some u)
    with None r i show ?thesis by (simp add: register_route_def Let_def)
  next
    case ex: None
    with None r i show ?thesis
      by (simp add: register_route_write save_user_def split: option.splits)
  qed
qed

text \<open>
  C4: one call of the route draws at most five candidates; when the request passes the
  checks and each of the five candidates is found taken, the call ends with the
  \<open>USERNAME_TOO_MANY_USERS\<close> error on the field \<open>username\<close> after exactly five draws.
  The handler is a total function, so it returns on every input; the instance that
  follows runs it on a world in which the name holds all 9999 discriminators.
\<close>

theorem allocation_attempts_bounded:
  "rng_calls (snd (register_route E req w)) \<le> rng_calls w + 5
   \<and> (register_checks E req w = None
        \<and> (\<forall>i<5. taken w (trimSpecial E (body_username req))
                     (drawn_discriminator E (rng_calls w + i)))
      \<longrightarrow> register_route E req w
            = (Threw (FieldErrors ''username'' ''USERNAME_TOO_MANY_USERS''),
               w\<lparr>rng_calls := rng_calls w + 5\<rparr>))"
  using register_route_rng_calls register_route_exhausted by blast

lemma example_draws_in_range:
  "1 \<le> randomIntBetween example_env i \<and> randomIntBetween example_env i \<le> 9999"
proof -
  have "i mod 7 < 7" by simp
  then show ?thesis by (simp add: example_env_def)
qed

lemma saturated_world_taken:
  assumes "1 \<le> k" and "k \<le> 9999"
  shows "taken (saturated_world name) name (padStart 4 (CHR ''0'') (toString k))"
proof -
  let ?f = "\<lambda>n. User_defaults\<lparr>username := name,
                                discriminator := padStart 4 (CHR ''0'') (toString n)\<rparr>"
  have "k \<in> set [1..<10000]" using assms by simp
  then have "?f k \<in> set (users (saturated_world name))"
    by (simp add: saturated_world_def empty_world_def del: set_upt)
  moreover have "discriminator (?f k) = padStart 4 (CHR ''0'') (toString k)
                 \<and> username (?f k) = name" by simp
  ultimately show ?thesis
    unfolding taken_def find_None_iff by blast
qed

lemma saturated_world_no_email: "\<forall>u \<in> set (users (saturated_world name)). email u = None"
  by (simp add: saturated_world_def empty_world_def User_defaults_def del: set_upt)

lemma example_adjusted_email: "adjustEmail ''a.lice+chat@gmail.com'' = Some ''alice@gmail.com''"
  by code_simp

lemma saturated_world_checks:
  "register_checks example_env example_request (saturated_world name) = None"
proof -
  have "find (\<lambda>u. email u = Some ''alice@gmail.com'') (users (saturated_world name)) = None"
    unfolding find_None_iff using saturated_world_no_email by auto
  then show ?thesis
    by (simp add: register_checks_def check_origin_def check_policy_def check_email_def
                  check_date_of_birth_def check_fingerprint_def check_captcha_def
                  example_env_def example_config_def example_request_def
                  example_adjusted_email truthy_def)
qed

theorem allocation_attempts_bounded_witness:
  "register_route example_env example_request (saturated_world ''alice'')
   = (Threw (FieldErrors ''username'' ''USERNAME_TOO_MANY_USERS''),
      (saturated_world ''alice'')\<lparr>rng_calls := 5\<rparr>)"
proof -
  have name: "trimSpecial example_env (body_username example_request) = ''alice''"
    by (simp add: example_env_def example_request_def)
  have all: "\<forall>i<5. taken (saturated_world ''alice'')
                     (trimSpecial example_env (body_username example_request))
                     (drawn_discriminator example_env (rng_calls (saturated_world ''alice'') + i))"
    unfolding name drawn_discriminator_def
    using saturated_world_taken example_draws_in_range by blast
  have zero: "rng_calls (saturated_world ''alice'') = 0"
    by (simp add: saturated_world_def empty_world_def)
  from allocation_attempts_bounded[of example_env example_request "saturated_world ''alice''"]
       saturated_world_checks all zero
  show ?thesis by simp
qed

lemma register_checks_never_token: "register_checks E req w \<noteq> Some (Token t)"
  by (simp add: register_checks_def check_captcha_def split: option.splits)

lemma new_User_discriminator [simp]: "discriminator (new_User E req n d a p) = d"
  by (simp add: new_User_def)

lemma register_route_token:
  assumes "register_route E req w = (Token t, w')"
  shows "\<exists>i<5. \<exists>u. discriminator u = drawn_discriminator E (rng_calls w + i)
                    \<and> \<not> taken w (username u) (discriminator u)
                    \<and> username u = trimSpecial E (body_username req)
                    \<and> users w' = users w @ [u]
                    \<and> settings u \<in> set (settings_rows w')"
proof -
  let ?n = "trimSpecial E (body_username req)"
  have c: "register_checks E req w = None"
  proof (cases "register_checks E req w")
    case (Some r)
    with assms have "r = Token t" by (simp add: register_route_rejected)
    with Some register_checks_never_token show ?thesis by blast
  qed simp
  obtain d' ex' w1 where r: "discriminator_loop E ?n 0 [] None w = (d', ex', w1)"
    by (cases "discriminator_loop E ?n 0 [] None w") auto
  have ex: "ex' = None"
  proof (rule ccontr)
    assume "ex' \<noteq> None"
    with c r assms show False by (auto simp: register_route_def Let_def)
  qed
  from discriminator_loop_found_free[OF r[unfolded ex]] obtain i where
    i: "i < 5" "d' = drawn_discriminator E (rng_calls w + i)" "\<not> taken w ?n d'"
       "w1 = w\<lparr>rng_calls := Suc (rng_calls w + i)\<rparr>" by blast
  let ?u = "new_User E req ?n d' (case body_email req of None \<Rightarrow> None | Some e \<Rightarrow> adjustEmail e)
              (bcrypt_hash E (body_password req))"
  from register_route_write[OF c r[unfolded ex]] assms i(4)
  have "users w' = users w @ [?u] \<and> settings ?u \<in> set (settings_rows w')"
    by (auto simp: save_user_def split: option.splits)
  moreover have "username ?u = ?n" by (simp add: new_User_def)
  ultimately show ?thesis using i by (intro exI[of _ i] conjI exI[of _ ?u]) simp_all
qed

section \<open>Discriminators of created accounts\<close>

text \<open>
  C1 as stated, that every account created by a registration carries a discriminator
  between 0001 and 9999 and never 0000, fails for \<open>User.register\<close>, which writes the
  literal \<open>"0000"\<close>.
\<close>

theorem registered_discriminator_counterexample:
  "\<not> isl (fst (User_register example_env example_args empty_world))
   \<and> discriminator (projr (fst (User_register example_env example_args empty_world))) = ''0000''
   \<and> map discriminator (users (snd (User_register example_env example_args empty_world)))
       = [''0000'']"
  by code_simp

text \<open>
  C1, amended: when every draw lies between 1 and 9999, an account created by the
  registration route carries the four-digit, zero-padded rendering of such a draw, which
  is never 0000; an account returned by \<open>User.register\<close> always carries 0000.
\<close>

theorem registered_discriminator:
  assumes "\<forall>i. 1 \<le> randomIntBetween E i \<and> randomIntBetween E i \<le> 9999"
  shows "(register_route E req w = (Token t, w') \<longrightarrow>
           (\<exists>u n. users w' = users w @ [u] \<and> 1 \<le> n \<and> n \<le> 9999
                  \<and> discriminator u = padStart 4 (CHR ''0'') (toString n)
                  \<and> length (discriminator u) = 4
                  \<and> (\<forall>c \<in> set (discriminator u). is_digit c)
                  \<and> discriminator u \<noteq> ''0000''))
         \<and> (fst (User_register E a w0) = Inr v \<longrightarrow> discriminator v = ''0000'')"
proof (intro conjI impI)
  assume "register_route E req w = (Token t, w')"
  from register_route_token[OF this] obtain i u where
    u: "discriminator u = drawn_discriminator E (rng_calls w + i)" "users w' = users w @ [u]"
    by blast
  let ?n = "randomIntBetween E (rng_calls w + i)"
  from assms have n: "1 \<le> ?n" "?n \<le> 9999" by simp_all
  from u(1) have d: "discriminator u = padStart 4 (CHR ''0'') (toString ?n)"
    by (simp add: drawn_discriminator_def)
  from padded_discriminator[OF n] d u(2) n show
    "\<exists>u n. users w' = users w @ [u] \<and> 1 \<le> n \<and> n \<le> 9999
           \<and> discriminator u = padStart 4 (CHR ''0'') (toString n)
           \<and> length (discriminator u) = 4
           \<and> (\<forall>c \<in> set (discriminator u). is_digit c)
           \<and> discriminator u \<noteq> ''0000''"
    by (intro exI[of _ u] exI[of _ ?n]) simp
next
  assume "fst (User_register E a w0) = Inr v"
  then show "discriminator v = ''0000''"
    by (auto simp: User_register_def register_User_def new_UserSettings_def save_user_def save_settings_def Let_def
             split: option.splits)
qed

theorem registered_discriminator_witness:
  "fst (register_route example_env example_request empty_world) = Token ''token:805826570869932034''
   \<and> (\<exists>u. users (snd (register_route example_env example_request empty_world)) = [u]
          \<and> length (discriminator u) = 4 \<and> discriminator u \<noteq> ''0000'')"
proof -
  have tok: "fst (register_route example_env example_request empty_world)
             = Token ''token:805826570869932034''"
    by code_simp
  then have eq: "register_route example_env example_request empty_world
                 = (Token ''token:805826570869932034'',
                    snd (register_route example_env example_request empty_world))"
    by (simp add: prod_eq_iff)
  have range: "\<forall>i. 1 \<le> randomIntBetween example_env i \<and> randomIntBetween example_env i \<le> 9999"
    using example_draws_in_range by blast
  have e: "users empty_world = []" by (simp add: empty_world_def)
  from registered_discriminator[OF range, THEN conjunct1, rule_format, OF eq] e tok
  show ?thesis by auto
qed

section \<open>A write that the persistence layer rejects\<close>

text \<open>
  C3 as stated, that a unique-constraint violation at the final write makes the core run
  the allocation again and surface a conflict error only when the retries are used up,
  fails: after one draw and one rejected write the route throws the rejection itself,
  although a second write would have committed.
\<close>

theorem rejected_write_retry_counterexample:
  "fst (register_route (example_env\<lparr>save_outcome := first_write_rejected\<rparr>)
          example_request empty_world) = Threw (QueryFailed UniqueViolation)
   \<and> rng_calls (snd (register_route (example_env\<lparr>save_outcome := first_write_rejected\<rparr>)
                       example_request empty_world)) = 1
   \<and> save_calls (snd (register_route (example_env\<lparr>save_outcome := first_write_rejected\<rparr>)
                        example_request empty_world)) = 1
   \<and> users (snd (register_route (example_env\<lparr>save_outcome := first_write_rejected\<rparr>)
                   example_request empty_world)) = []
   \<and> first_write_rejected 1 = None"
  by code_simp

lemma register_route_field_error_no_write:
  assumes "fst (register_route E req w) = Threw (FieldErrors f c)"
  shows "save_calls (snd (register_route E req w)) = save_calls w"
proof (cases "register_checks E req w")
  case (Some r)
  then show ?thesis by (simp add: register_route_rejected)
next
  case None
  obtain d' ex' w1 where
    r: "discriminator_loop E (trimSpecial E (body_username req)) 0 [] None w = (d', ex', w1)"
    by (cases "discriminator_loop E (trimSpecial E (body_username req)) 0 [] None w") auto
  have z: "(0::nat) < 5" by simp
  from discriminator_loop_result[OF z r] obtain k where w1: "w1 = w\<lparr>rng_calls := Suc k\<rparr>"
    by auto
  show ?thesis
  proof (cases ex')
    case (Some u)
    with None r w1 show ?thesis by (simp add: register_route_def Let_def)
  next
    case ex: None
    from register_route_write[OF None r[unfolded ex]] assms
    show ?thesis by (simp add: save_user_def split: option.splits)
  qed
qed

text \<open>
  C3, amended: when the write is rejected, nothing is retried. The route, having passed
  the checks and found its first free candidate at draw number \<open>i\<close> of its at most five
  draws, issues exactly one write, has drawn exactly \<open>i + 1\<close> candidates and none after
  the rejection, leaves the accounts as they were and throws the rejection unchanged. The
  error \<open>USERNAME_TOO_MANY_USERS\<close> is thrown only when no write was issued.
  \<open>User.register\<close> issues its two writes exactly once, adds no account and throws a
  rejection unchanged: that of \<open>user.save()\<close>, unless \<open>settings.save()\<close> is rejected as
  well and settles first.
\<close>

theorem rejected_write_not_retried:
  assumes "save_outcome E (save_calls w) = Some err"
  shows "(register_checks E req w = None
          \<and> i < 5
          \<and> \<not> taken w (trimSpecial E (body_username req))
                 (drawn_discriminator E (rng_calls w + i))
          \<and> (\<forall>j<i. taken w (trimSpecial E (body_username req))
                       (drawn_discriminator E (rng_calls w + j)))
          \<longrightarrow> fst (register_route E req w) = Threw (QueryFailed err)
              \<and> save_calls (snd (register_route E req w)) = Suc (save_calls w)
              \<and> rng_calls (snd (register_route E req w)) = Suc (rng_calls w + i)
              \<and> users (snd (register_route E req w)) = users w)
         \<and> (fst (register_route E req w)
               = Threw (FieldErrors ''username'' ''USERNAME_TOO_MANY_USERS'')
             \<longrightarrow> save_calls (snd (register_route E req w)) = save_calls w)
         \<and> fst (User_register E a w)
             = Inl (QueryFailed (case save_outcome E (Suc (save_calls w)) of
                                   None \<Rightarrow> err
                                 | Some err' \<Rightarrow> if user_save_settles_first E then err else err'))
         \<and> save_calls (snd (User_register E a w)) = Suc (Suc (save_calls w))
         \<and> users (snd (User_register E a w)) = users w"
proof (intro conjI impI)
  assume h: "register_checks E req w = None \<and> i < 5
             \<and> \<not> taken w (trimSpecial E (body_username req))
                    (drawn_discriminator E (rng_calls w + i))
             \<and> (\<forall>j<i. taken w (trimSpecial E (body_username req))
                          (drawn_discriminator E (rng_calls w + j)))"
  let ?n = "trimSpecial E (body_username req)"
  from h have c: "register_checks E req w = None" by simp
  from h have r: "discriminator_loop E ?n 0 [] None w
                  = (drawn_discriminator E (rng_calls w + i), None,
                     w\<lparr>rng_calls := Suc (rng_calls w + i)\<rparr>)"
    by (intro discriminator_loop_first_free) simp_all
  from register_route_write[OF c r] assms
  show "fst (register_route E req w) = Threw (QueryFailed err)"
    and "save_calls (snd (register_route E req w)) = Suc (save_calls w)"
    and "rng_calls (snd (register_route E req w)) = Suc (rng_calls w + i)"
    and "users (snd (register_route E req w)) = users w"
    by (simp_all add: save_user_def)
next
  assume "fst (register_route E req w)
          = Threw (FieldErrors ''username'' ''USERNAME_TOO_MANY_USERS'')"
  then show "save_calls (snd (register_route E req w)) = save_calls w"
    by (rule register_route_field_error_no_write)
next
  show "fst (User_register E a w)
        = Inl (QueryFailed (case save_outcome E (Suc (save_calls w)) of
                              None \<Rightarrow> err
                            | Some err' \<Rightarrow> if user_save_settles_first E then err else err'))"
    using assms by (simp add: User_register_def save_user_def save_settings_def Let_def
                         split: option.splits)
  show "save_calls (snd (User_register E a w)) = Suc (Suc (save_calls w))"
    using assms by (simp add: User_register_def save_user_def save_settings_def Let_def
                         split: option.splits)
  show "users (snd (User_register E a w)) = users w"
    using assms by (simp add: User_register_def save_user_def save_settings_def Let_def
                         split: option.splits)
qed

theorem rejected_write_not_retried_witness:
  "fst (register_route (example_env\<lparr>save_outcome := (\<lambda>k. Some ConnectionLost)\<rparr>)
          (example_request\<lparr>body_email := Some ''carol@example.org''\<rparr>)
          first_candidate_taken_world)
     = Threw (QueryFailed ConnectionLost)
   \<and> save_calls (snd (register_route (example_env\<lparr>save_outcome := (\<lambda>k. Some ConnectionLost)\<rparr>)
          (example_request\<lparr>body_email := Some ''carol@example.org''\<rparr>)
          first_candidate_taken_world)) = 1
   \<and> rng_calls (snd (register_route (example_env\<lparr>save_outcome := (\<lambda>k. Some ConnectionLost)\<rparr>)
          (example_request\<lparr>body_email := Some ''carol@example.org''\<rparr>)
          first_candidate_taken_world)) = 2
   \<and> fst (User_register (example_env\<lparr>save_outcome := (\<lambda>k. Some ConnectionLost)\<rparr>)
            example_args first_candidate_taken_world) = Inl (QueryFailed ConnectionLost)"
proof -
  let ?E = "example_env\<lparr>save_outcome := (\<lambda>k. Some ConnectionLost)\<rparr>"
  let ?req = "example_request\<lparr>body_email := Some ''carol@example.org''\<rparr>"
  let ?w = first_candidate_taken_world
  have sv: "save_outcome ?E (save_calls ?w) = Some ConnectionLost"
    by simp
  have c: "register_checks ?E ?req ?w = None"
    by code_simp
  have z: "save_calls ?w = 0" "rng_calls ?w = 0"
    by (simp_all add: first_candidate_taken_world_def empty_world_def)
  have f: "\<not> taken ?w (trimSpecial ?E (body_username ?req))
               (drawn_discriminator ?E (rng_calls ?w + 1))"
    by code_simp
  have t0: "taken ?w (trimSpecial ?E (body_username ?req)) (drawn_discriminator ?E 0)"
    by code_simp
  have t: "\<forall>j<1. taken ?w (trimSpecial ?E (body_username ?req))
                    (drawn_discriminator ?E (rng_calls ?w + j))"
    using t0 z by simp
  have st: "user_save_settles_first ?E" by (simp add: example_env_def)
  have one: "(1::nat) < 5" by simp
  from rejected_write_not_retried[OF sv, where req = ?req and i = 1 and a = example_args]
       c one f t z st
  show ?thesis by simp
qed

section \<open>The order and the scope of the rejections\<close>


lemma check_origin_None: "check_origin E = None \<longleftrightarrow> \<not> (blockProxies (config E) \<and> isProxy E)"
  by (simp add: check_origin_def)



lemma check_date_of_birth_fields:
  "check_date_of_birth E req = Some f
   \<Longrightarrow> f \<in> {FieldErrors ''date_of_birth'' ''BASE_TYPE_REQUIRED'',
             FieldErrors ''date_of_birth'' ''DATE_OF_BIRTH_UNDERAGE''}"
  by (auto simp: check_date_of_birth_def Let_def split: if_splits option.splits)

lemma check_fingerprint_Some:
  "check_fingerprint E req db = Some f
   \<longleftrightarrow> \<not> allowMultipleAccounts (config E)
       \<and> find_fingerprint E db (body_fingerprint req) \<noteq> None
       \<and> f = FieldErrors ''email'' ''EMAIL_ALREADY_REGISTERED''"
  by (auto simp: check_fingerprint_def)

lemma check_captcha_no_throw: "check_captcha C req \<noteq> Some (Threw f)"
  by (simp add: check_captcha_def)

lemma register_checks_origin:
  "blockProxies (config E) \<and> isProxy E
   \<Longrightarrow> register_checks E req w = Some (Threw (HTTPError ''Your IP is blocked from registration''))"
  by (simp add: register_checks_def check_origin_def)

lemma register_checks_policy:
  "check_origin E = None \<Longrightarrow> body_email req = Some e \<Longrightarrow> check_policy (config E) req = Some f
   \<Longrightarrow> register_checks E req w = Some (Threw f)"
  by (simp add: register_checks_def)

lemma register_checks_email:
  "check_origin E = None \<Longrightarrow> body_email req = Some e \<Longrightarrow> check_policy (config E) req = None
   \<Longrightarrow> check_email (config E) e (adjustEmail e) (users w) = Some f
   \<Longrightarrow> register_checks E req w = Some (Threw f)"
  by (simp add: register_checks_def)


lemma register_checks_throw_cases:
  assumes "register_checks E req w = Some (Threw x)"
  shows "check_origin E = Some x
         \<or> (check_origin E = None \<and> body_email req = None \<and> x = TypeError)
         \<or> (\<exists>e. check_origin E = None \<and> body_email req = Some e
                \<and> (check_policy (config E) req = Some x
                    \<or> check_policy (config E) req = None
                       \<and> (check_email (config E) e (adjustEmail e) (users w) = Some x
                           \<or> check_email (config E) e (adjustEmail e) (users w) = None
                              \<and> (check_date_of_birth E req = Some x
                                  \<or> check_date_of_birth E req = None
                                     \<and> check_fingerprint E req (users w) = Some x))))"
  using assms check_captcha_no_throw[of "config E" req x]
  by (auto simp: register_checks_def split: option.splits)

lemma register_route_throw_cases:
  assumes "fst (register_route E req w) = Threw x"
  shows "register_checks E req w = Some (Threw x)
         \<or> (register_checks E req w = None
             \<and> (x = FieldErrors ''username'' ''USERNAME_TOO_MANY_USERS'' \<or> (\<exists>err. x = QueryFailed err)))"
proof (cases "register_checks E req w")
  case (Some r)
  with assms show ?thesis by (simp add: register_route_rejected)
next
  case None
  obtain d' ex' w1 where
    r: "discriminator_loop E (trimSpecial E (body_username req)) 0 [] None w = (d', ex', w1)"
    by (cases "discriminator_loop E (trimSpecial E (body_username req)) 0 [] None w") auto
  show ?thesis
  proof (cases ex')
    case (Some u)
    with None r assms show ?thesis by (auto simp: register_route_def Let_def)
  next
    case ex: None
    from register_route_write[OF None r[unfolded ex]] assms None
    show ?thesis by (auto simp: save_user_def split: option.splits)
  qed
qed

text \<open>
  C5 as stated, that the registration-enabled, consent and invite checks come before the
  proxy-origin check, fails: with registration disabled, proxy blocking enabled and a proxy
  origin, the request fails with the error of the origin check.
\<close>

theorem check_order_counterexample:
  "\<not> allowNewRegistration (config (example_env\<lparr>config := example_config\<lparr>blockProxies := True,
         allowNewRegistration := False\<rparr>, isProxy := True\<rparr>))
   \<and> fst (register_route
            (example_env\<lparr>config := example_config\<lparr>blockProxies := True,
                                                    allowNewRegistration := False\<rparr>,
                          isProxy := True\<rparr>)
            example_request empty_world)
       = Threw (HTTPError ''Your IP is blocked from registration'')"
  by code_simp

text \<open>
  C5, amended: the proxy-origin check comes first; when proxy blocking is enabled and the
  origin is a proxy, the request fails with the generic blocked-origin error whatever the
  other settings are. Otherwise, for a request that supplies an email, the
  registration-enabled, consent and invite checks follow in this order, each rejecting
  before any later check is looked at.
\<close>

theorem check_order:
  "(blockProxies (config E) \<and> isProxy E
      \<longrightarrow> register_route E req w
            = (Threw (HTTPError ''Your IP is blocked from registration''), w))
   \<and> (\<not> (blockProxies (config E) \<and> isProxy E) \<and> body_email req \<noteq> None
      \<longrightarrow> (\<not> allowNewRegistration (config E)
             \<longrightarrow> register_route E req w
                   = (Threw (FieldErrors ''email'' ''REGISTRATION_DISABLED''), w))
          \<and> (allowNewRegistration (config E) \<and> \<not> body_consent req
             \<longrightarrow> register_route E req w
                   = (Threw (FieldErrors ''consent'' ''CONSENT_REQUIRED''), w))
          \<and> (allowNewRegistration (config E) \<and> body_consent req
              \<and> requireInvite (config E) \<and> \<not> truthy (body_invite req)
             \<longrightarrow> register_route E req w
                   = (Threw (FieldErrors ''email'' ''INVITE_ONLY''), w)))"
proof (intro conjI impI)
  assume "blockProxies (config E) \<and> isProxy E"
  then show "register_route E req w
             = (Threw (HTTPError ''Your IP is blocked from registration''), w)"
    by (simp add: register_checks_origin register_route_rejected)
next
  assume h: "\<not> (blockProxies (config E) \<and> isProxy E) \<and> body_email req \<noteq> None"
  then obtain e where e: "body_email req = Some e" and o: "check_origin E = None"
    by (auto simp: check_origin_None)
  {
    assume "\<not> allowNewRegistration (config E)"
    then have "check_policy (config E) req = Some (FieldErrors ''email'' ''REGISTRATION_DISABLED'')"
      by (simp add: check_policy_def)
    from register_checks_policy[OF o e this]
    show "register_route E req w = (Threw (FieldErrors ''email'' ''REGISTRATION_DISABLED''), w)"
      by (simp add: register_route_rejected)
  }
  {
    assume "allowNewRegistration (config E) \<and> \<not> body_consent req"
    then have "check_policy (config E) req = Some (FieldErrors ''consent'' ''CONSENT_REQUIRED'')"
      by (simp add: check_policy_def)
    from register_checks_policy[OF o e this]
    show "register_route E req w = (Threw (FieldErrors ''consent'' ''CONSENT_REQUIRED''), w)"
      by (simp add: register_route_rejected)
  }
  {
    assume "allowNewRegistration (config E) \<and> body_consent req
            \<and> requireInvite (config E) \<and> \<not> truthy (body_invite req)"
    then have "check_policy (config E) req = Some (FieldErrors ''email'' ''INVITE_ONLY'')"
      by (simp add: check_policy_def)
    from register_checks_policy[OF o e this]
    show "register_route E req w = (Threw (FieldErrors ''email'' ''INVITE_ONLY''), w)"
      by (simp add: register_route_rejected)
  }
qed

theorem check_order_witness:
  "register_route (example_env\<lparr>config := example_config\<lparr>blockProxies := True\<rparr>, isProxy := True\<rparr>)
     (example_request\<lparr>body_consent := False\<rparr>) empty_world
   = (Threw (HTTPError ''Your IP is blocked from registration''), empty_world)
   \<and> register_route (example_env\<lparr>config := example_config\<lparr>allowNewRegistration := False\<rparr>\<rparr>)
       (example_request\<lparr>body_consent := False\<rparr>) empty_world
     = (Threw (FieldErrors ''email'' ''REGISTRATION_DISABLED''), empty_world)"
proof -
  let ?P = "example_env\<lparr>config := example_config\<lparr>blockProxies := True\<rparr>, isProxy := True\<rparr>"
  let ?D = "example_env\<lparr>config := example_config\<lparr>allowNewRegistration := False\<rparr>\<rparr>"
  let ?req = "example_request\<lparr>body_consent := False\<rparr>"
  have p: "blockProxies (config ?P) \<and> isProxy ?P" by simp
  have d: "\<not> (blockProxies (config ?D) \<and> isProxy ?D) \<and> body_email ?req \<noteq> None"
    by (simp add: example_env_def example_request_def)
  have n: "\<not> allowNewRegistration (config ?D)" by simp
  from check_order[of ?P ?req empty_world] check_order[of ?D ?req empty_world] p d n
  show ?thesis by blast
qed





section \<open>The email check\<close>

lemma adjustEmail_nonempty:
  assumes "adjustEmail e = Some a" shows "e \<noteq> []" and "a \<noteq> []"
proof -
  from assms obtain u d where m: "EMAIL_REGEX_match e = Some (u, d)"
    by (auto simp: adjustEmail_def split: option.splits)
  from match_decompose(1)[OF m] show e: "e \<noteq> []" by simp
  from assms m e show "a \<noteq> []" by (auto simp: adjustEmail_def split: if_splits)
qed

lemma check_email_holder:
  assumes "adjustEmail e = Some a"
  shows "check_email C e (adjustEmail e) db
         = (if \<exists>u \<in> set db. email u = Some a
            then Some (FieldErrors ''email'' ''EMAIL_ALREADY_REGISTERED'') else None)"
proof -
  from adjustEmail_nonempty[OF assms] have ne: "e \<noteq> []" "truthy (Some a)"
    by (simp_all add: truthy_def)
  have "(find (\<lambda>u. email u = Some a) db \<noteq> None) = (\<exists>u \<in> set db. email u = Some a)"
    by (auto simp: find_None_iff)
  with ne assms show ?thesis by (simp add: check_email_def)
qed

text \<open>
  C7 as stated, that a canonical email held only by soft-deleted accounts does not block
  a registration, fails: the lookup does not read the \<open>deleted\<close> column.
\<close>

theorem email_held_by_deleted_counterexample:
  "map deleted (users deleted_holder_world) = [True]
   \<and> fst (register_route example_env (example_request\<lparr>body_email := Some ''bob@example.org''\<rparr>)
            deleted_holder_world)
       = Threw (FieldErrors ''email'' ''EMAIL_ALREADY_REGISTERED'')"
  by code_simp

text \<open>
  C7, amended: a registration with a supplied, valid email that passes the origin and
  policy checks is rejected with \<open>EMAIL_ALREADY_REGISTERED\<close> on the field \<open>email\<close>
  whenever some account, soft-deleted or not, holds the canonical form of that email.
  When no account holds it, the same rejection can only come from the fingerprint check:
  multiple accounts are not allowed and the fingerprint is found.
\<close>

theorem email_already_registered:
  assumes "check_origin E = None" and "check_policy (config E) req = None"
    and "body_email req = Some e" and "adjustEmail e = Some a"
  shows "(u \<in> set (users w) \<and> email u = Some a
            \<longrightarrow> register_route E req w
                  = (Threw (FieldErrors ''email'' ''EMAIL_ALREADY_REGISTERED''), w))
         \<and> ((\<forall>v \<in> set (users w). email v \<noteq> Some a)
             \<and> fst (register_route E req w)
                 = Threw (FieldErrors ''email'' ''EMAIL_ALREADY_REGISTERED'')
            \<longrightarrow> \<not> allowMultipleAccounts (config E)
                \<and> find_fingerprint E (users w) (body_fingerprint req) \<noteq> None)"
proof -
  let ?x = "FieldErrors ''email'' ''EMAIL_ALREADY_REGISTERED''"
  have first: "register_route E req w = (Threw ?x, w)"
    if "u \<in> set (users w) \<and> email u = Some a"
  proof -
    from that have "check_email (config E) e (adjustEmail e) (users w) = Some ?x"
      by (auto simp: check_email_holder[OF assms(4)])
    from register_checks_email[OF assms(1) assms(3) assms(2) this]
    show ?thesis by (rule register_route_rejected)
  qed
  have second: "\<not> allowMultipleAccounts (config E)
                \<and> find_fingerprint E (users w) (body_fingerprint req) \<noteq> None"
    if h: "(\<forall>v \<in> set (users w). email v \<noteq> Some a) \<and> fst (register_route E req w) = Threw ?x"
  proof -
    from h have m: "check_email (config E) e (adjustEmail e) (users w) = None"
      by (auto simp: check_email_holder[OF assms(4)])
    from h register_route_throw_cases[of E req w ?x]
    have "register_checks E req w = Some (Threw ?x)" by auto
    from register_checks_throw_cases[OF this] assms(1,2,3) m
    have "check_date_of_birth E req = Some ?x \<or> check_fingerprint E req (users w) = Some ?x"
      by (elim disjE exE conjE) simp_all
    moreover have "check_date_of_birth E req \<noteq> Some ?x"
      using check_date_of_birth_fields[of E req ?x] by auto
    ultimately have "check_fingerprint E req (users w) = Some ?x" by blast
    then show ?thesis by (simp add: check_fingerprint_Some)
  qed
  from first second show ?thesis by blast
qed

theorem email_already_registered_witness:
  "register_route example_env example_request active_holder_world
   = (Threw (FieldErrors ''email'' ''EMAIL_ALREADY_REGISTERED''), active_holder_world)"
proof -
  let ?u = "User_defaults\<lparr>user_id := ''2'', username := ''alice'', discriminator := ''0001'',
                           email := Some ''alice@gmail.com''\<rparr>"
  have o: "check_origin example_env = None" by code_simp
  have p: "check_policy (config example_env) example_request = None" by code_simp
  have e: "body_email example_request = Some ''a.lice+chat@gmail.com''"
    by (simp add: example_request_def)
  have h: "?u \<in> set (users active_holder_world) \<and> email ?u = Some ''alice@gmail.com''"
    by (simp add: active_holder_world_def empty_world_def)
  from email_already_registered[OF o p e example_adjusted_email,
         where u = ?u and w = active_holder_world] h
  show ?thesis by blast
qed

section \<open>The two writes of \<open>User.register\<close>\<close>

text \<open>
  C2 as stated, that the account and its settings become visible together or not at all,
  fails for \<open>User.register\<close>: when the write of the account is rejected and the write of
  the settings commits, a settings row is visible without any account.
\<close>

theorem User_register_atomic_counterexample:
  "fst (User_register (example_env\<lparr>save_outcome := first_write_rejected\<rparr>)
          example_args empty_world) = Inl (QueryFailed UniqueViolation)
   \<and> users (snd (User_register (example_env\<lparr>save_outcome := first_write_rejected\<rparr>)
                   example_args empty_world)) = []
   \<and> settings_rows (snd (User_register (example_env\<lparr>save_outcome := first_write_rejected\<rparr>)
                           example_args empty_world)) = [\<lparr>locale_setting = ''en-US''\<rparr>]"
  by code_simp

lemma register_route_save_calls:
  "save_calls (snd (register_route E req w)) \<le> Suc (save_calls w)"
proof (cases "register_checks E req w")
  case (Some r)
  then show ?thesis by (simp add: register_route_rejected)
next
  case None
  obtain d' ex' w1 where
    r: "discriminator_loop E (trimSpecial E (body_username req)) 0 [] None w = (d', ex', w1)"
    by (cases "discriminator_loop E (trimSpecial E (body_username req)) 0 [] None w") auto
  have z: "(0::nat) < 5" by simp
  from discriminator_loop_result[OF z r] obtain k where w1: "w1 = w\<lparr>rng_calls := Suc k\<rparr>"
    by auto
  show ?thesis
  proof (cases ex')
    case (Some u)
    with None r w1 show ?thesis by (simp add: register_route_def Let_def)
  next
    case ex: None
    from register_route_write[OF None r[unfolded ex]] w1
    show ?thesis by (simp add: save_user_def split: option.splits)
  qed
qed

text \<open>
  C2, amended: \<open>User.register\<close> issues the write of the account and the write of the
  settings independently, with nothing around them and nothing undone; each of the four
  outcomes leaves its own rows. When both commit, the account is returned, its row is
  added, and two settings rows are added, one by the cascade of \<open>user.save()\<close> and one by
  \<open>settings.save()\<close>. When \<open>user.save()\<close> is rejected and \<open>settings.save()\<close> commits, the
  call fails with that rejection, no account row is added, and the settings row of
  \<open>settings.save()\<close> is added, after the row of the cascade where the persistence layer
  kept it. When \<open>user.save()\<close> commits and \<open>settings.save()\<close> is rejected, the call fails
  with that rejection although the account row and the settings row of the cascade are
  added. When both are rejected, the call fails with the rejection that settles first, no
  account row is added, and only a kept row of the cascade is added. The route issues at
  most one write in a call.
\<close>

theorem User_register_writes:
  "(save_outcome E (save_calls w) = None \<and> save_outcome E (Suc (save_calls w)) = None
      \<longrightarrow> fst (User_register E a w) = Inr (register_User E a)
          \<and> users (snd (User_register E a w)) = users w @ [register_User E a]
          \<and> settings_rows (snd (User_register E a w))
              = settings_rows w @ [new_UserSettings a, new_UserSettings a])
   \<and> (save_outcome E (save_calls w) = Some err \<and> save_outcome E (Suc (save_calls w)) = None
      \<longrightarrow> fst (User_register E a w) = Inl (QueryFailed err)
          \<and> users (snd (User_register E a w)) = users w
          \<and> settings_rows (snd (User_register E a w))
              = settings_rows w
                @ (if cascade_kept E (save_calls w) then [new_UserSettings a] else [])
                @ [new_UserSettings a])
   \<and> (save_outcome E (save_calls w) = None \<and> save_outcome E (Suc (save_calls w)) = Some err'
      \<longrightarrow> fst (User_register E a w) = Inl (QueryFailed err')
          \<and> users (snd (User_register E a w)) = users w @ [register_User E a]
          \<and> settings_rows (snd (User_register E a w)) = settings_rows w @ [new_UserSettings a])
   \<and> (save_outcome E (save_calls w) = Some err \<and> save_outcome E (Suc (save_calls w)) = Some err'
      \<longrightarrow> fst (User_register E a w)
            = Inl (QueryFailed (if user_save_settles_first E then err else err'))
          \<and> users (snd (User_register E a w)) = users w
          \<and> settings_rows (snd (User_register E a w))
              = settings_rows w
                @ (if cascade_kept E (save_calls w) then [new_UserSettings a] else []))
   \<and> settings (register_User E a) = new_UserSettings a
   \<and> save_calls (snd (register_route E req w)) \<le> Suc (save_calls w)"
proof (intro conjI)
  show "save_outcome E (save_calls w) = None \<and> save_outcome E (Suc (save_calls w)) = None
      \<longrightarrow> fst (User_register E a w) = Inr (register_User E a)
          \<and> users (snd (User_register E a w)) = users w @ [register_User E a]
          \<and> settings_rows (snd (User_register E a w))
              = settings_rows w @ [new_UserSettings a, new_UserSettings a]"
    by (simp add: User_register_def save_user_def save_settings_def Let_def register_User_def)
  show "save_outcome E (save_calls w) = Some err \<and> save_outcome E (Suc (save_calls w)) = None
      \<longrightarrow> fst (User_register E a w) = Inl (QueryFailed err)
          \<and> users (snd (User_register E a w)) = users w
          \<and> settings_rows (snd (User_register E a w))
              = settings_rows w
                @ (if cascade_kept E (save_calls w) then [new_UserSettings a] else [])
                @ [new_UserSettings a]"
    by (simp add: User_register_def save_user_def save_settings_def Let_def register_User_def)
  show "save_outcome E (save_calls w) = None \<and> save_outcome E (Suc (save_calls w)) = Some err'
      \<longrightarrow> fst (User_register E a w) = Inl (QueryFailed err')
          \<and> users (snd (User_register E a w)) = users w @ [register_User E a]
          \<and> settings_rows (snd (User_register E a w)) = settings_rows w @ [new_UserSettings a]"
    by (simp add: User_register_def save_user_def save_settings_def Let_def register_User_def)
  show "save_outcome E (save_calls w) = Some err \<and> save_outcome E (Suc (save_calls w)) = Some err'
      \<longrightarrow> fst (User_register E a w)
            = Inl (QueryFailed (if user_save_settles_first E then err else err'))
          \<and> users (snd (User_register E a w)) = users w
          \<and> settings_rows (snd (User_register E a w))
              = settings_rows w
                @ (if cascade_kept E (save_calls w) then [new_UserSettings a] else [])"
    by (simp add: User_register_def save_user_def save_settings_def Let_def register_User_def)
  show "settings (register_User E a) = new_UserSettings a"
    by (simp add: register_User_def)
  show "save_calls (snd (register_route E req w)) \<le> Suc (save_calls w)"
    by (rule register_route_save_calls)
qed

theorem User_register_writes_witness:
  "fst (User_register example_env example_args active_holder_world)
     = Inr (register_User example_env example_args)
   \<and> users (snd (User_register example_env example_args active_holder_world))
      = users active_holder_world @ [register_User example_env example_args]
   \<and> settings_rows (snd (User_register example_env example_args active_holder_world))
      = [\<lparr>locale_setting = ''en-US''\<rparr>, \<lparr>locale_setting = ''en-US''\<rparr>]"
proof -
  have s: "save_outcome example_env (save_calls active_holder_world) = None
           \<and> save_outcome example_env (Suc (save_calls active_holder_world)) = None"
    by (simp add: example_env_def)
  have n: "new_UserSettings example_args = \<lparr>locale_setting = ''en-US''\<rparr>"
    by (simp add: new_UserSettings_def example_args_def)
  have e: "settings_rows active_holder_world = []"
    by (simp add: active_holder_world_def empty_world_def)
  from User_register_writes[where E = example_env and w = active_holder_world
                              and a = example_args] s n e
  show ?thesis by simp
qed

end
